theory Spec2Isabelle
  imports Complex_Main
begin

section \<open>Python values shared by the models\<close>

text \<open>
  Exceptions of the source are values: every function of the source that can raise returns
  \<open>py_error + 'a\<close>, with \<open>Inl\<close> the exception.
\<close>

datatype py_error =
    ValueError string
  | IndexError
  | KeyError string
  | FileExistsError
  | NotADirectoryError
  | JSONDecodeError
  | TypeError
  | FileNotFoundError
  | ZeroDivisionError
  | RuntimeError

text \<open>
  A directory tree as \<open>Path.iterdir\<close> and \<open>Path.is_dir\<close> see it: a node is a regular file or
  a directory with its entries, each entry a name and a node, in listing order.
\<close>

datatype fs_node = File | Dir "(string \<times> fs_node) list"

fun is_dir :: "fs_node \<Rightarrow> bool" where
  "is_dir File = False"
| "is_dir (Dir es) = True"

text \<open>A path is the list of its components below the root it was listed from.\<close>

type_synonym path = "string list"

section \<open>ClassDataProvider\<close>

record ClassDataProvider =
  class_prompt :: string
  class_images :: "path list"
  cursor :: nat

text \<open>
  \<open>class_data_dir.mkdir(parents=True, exist_ok=True)\<close> followed by \<open>class_data_dir.iterdir()\<close>,
  on the entries of \<open>class_data_root\<close>: a missing directory is created empty, an existing
  directory is listed, and a regular file of that name makes \<open>mkdir\<close> raise.
\<close>

definition mkdir_iterdir ::
  "(string \<times> fs_node) list \<Rightarrow> string \<Rightarrow> py_error + (string \<times> fs_node) list" where
  "mkdir_iterdir class_data_root name =
     (case map_of class_data_root name of
        None \<Rightarrow> Inr []
      | Some File \<Rightarrow> Inl FileExistsError
      | Some (Dir es) \<Rightarrow> Inr es)"

definition ClassDataProvider_init ::
  "(string \<times> fs_node) list \<Rightarrow> string \<Rightarrow> py_error + ClassDataProvider" where
  "ClassDataProvider_init class_data_root prompt =
     (case mkdir_iterdir class_data_root prompt of
        Inl e \<Rightarrow> Inl e
      | Inr es \<Rightarrow>
          (let imgs = map (\<lambda>x. [prompt, fst x]) (filter (\<lambda>x. \<not> is_dir (snd x)) es)
           in if length imgs \<le> 0
              then Inl (ValueError ''Empty class directory'')
              else Inr \<lparr>class_prompt = prompt, class_images = imgs, cursor = 0\<rparr>))"

text \<open>
  \<open>take_one\<close> reads \<open>class_images[cursor]\<close> (an IndexError out of range) and then stores
  \<open>(cursor + 1) % len(class_images)\<close>.
\<close>

definition take_one :: "ClassDataProvider \<Rightarrow> py_error + (path \<times> ClassDataProvider)" where
  "take_one p =
     (if cursor p < length (class_images p)
      then Inr (class_images p ! cursor p,
                p\<lparr>cursor := (cursor p + 1) mod length (class_images p)\<rparr>)
      else Inl IndexError)"

text \<open>\<open>n\<close> consecutive calls of \<open>take_one\<close>, collecting what they return.\<close>

fun take_many :: "nat \<Rightarrow> ClassDataProvider \<Rightarrow> py_error + (path list \<times> ClassDataProvider)" where
  "take_many 0 p = Inr ([], p)"
| "take_many (Suc n) p =
     (case take_one p of
        Inl e \<Rightarrow> Inl e
      | Inr (r, p') \<Rightarrow>
          (case take_many n p' of
             Inl e \<Rightarrow> Inl e
           | Inr (rs, q) \<Rightarrow> Inr (r # rs, q)))"

section \<open>Configuration overrides of main\<close>

text \<open>The fields of \<open>args\<close> that the checks of \<open>parse_args\<close> and the overrides of \<open>main\<close> read or write.\<close>

record args =
  instance_data_dir :: "string option"
  class_data_dir :: "string option"
  arg_class_prompt :: "string option"
  subfolder_mode :: bool
  with_prior_preservation :: bool
  image_captions_filename :: bool
  prior_loss_weight :: real

text \<open>The checks at the end of \<open>parse_args\<close>.\<close>

definition parse_args_checks :: "args \<Rightarrow> py_error + args" where
  "parse_args_checks a =
     (if instance_data_dir a = None
      then Inl (ValueError ''You must specify a train data directory.'')
      else if with_prior_preservation a \<and> class_data_dir a = None
      then Inl (ValueError ''You must specify a data directory for class images.'')
      else if with_prior_preservation a \<and> arg_class_prompt a = None \<and> \<not> subfolder_mode a
      then Inl (ValueError ''You must specify prompt for class images.'')
      else Inr a)"

text \<open>The \<open>if args.subfolder_mode:\<close> block at the start of \<open>main\<close>.\<close>

definition subfolder_overrides :: "args \<Rightarrow> args" where
  "subfolder_overrides a =
     (if subfolder_mode a
      then a\<lparr>image_captions_filename := True,
             with_prior_preservation := True,
             prior_loss_weight := 1.0\<rparr>
      else a)"

definition main_args :: "args \<Rightarrow> py_error + args" where
  "main_args a =
     (case parse_args_checks a of
        Inl e \<Rightarrow> Inl e
      | Inr a' \<Rightarrow> Inr (subfolder_overrides a'))"

section \<open>Prompts derived from file names\<close>

text \<open>
  A Python \<open>str\<close> is modelled as a \<open>string\<close> whose characters are the code points below 256.
  In that range \<open>str.isdigit\<close> holds for \<open>0\<close> to \<open>9\<close> and for the superscript digits
  U+00B2, U+00B3 and U+00B9.
\<close>

definition isdigit :: "char \<Rightarrow> bool" where
  "isdigit c = (c \<in> set ''0123456789'' \<or> c = CHR 0xB2 \<or> c = CHR 0xB3 \<or> c = CHR 0xB9)"

text \<open>
  \<open>s.replace(old, new)\<close>: the occurrences of \<open>old\<close> are found from the left and do not
  overlap; an empty \<open>old\<close> matches before every character and at the end.
\<close>

fun replace :: "string \<Rightarrow> string \<Rightarrow> string \<Rightarrow> string" where
  "replace [] new s = new @ concat (map (\<lambda>c. c # new) s)"
| "replace (a # old) new [] = []"
| "replace (a # old) new (x # xs) =
     (if take (length (a # old)) (x # xs) = a # old
      then new @ replace (a # old) new (drop (length old) xs)
      else x # replace (a # old) new xs)"

text \<open>\<open>str.rfind\<close> for one character: the last index where it occurs, or \<open>-1\<close>.\<close>

definition rfind :: "char \<Rightarrow> string \<Rightarrow> int" where
  "rfind c s =
     (case filter (\<lambda>i. s ! i = c) (rev [0..<length s]) of
        [] \<Rightarrow> - 1
      | i # _ \<Rightarrow> int i)"

text \<open>
  \<open>Path(path).stem\<close> on the last component of the path: the name up to its last dot, when
  that dot is neither the first nor the last character.
\<close>

definition stem :: "string \<Rightarrow> string" where
  "stem name =
     (let i = rfind (CHR ''.'') name
      in if 0 < i \<and> i < int (length name) - 1 then take (nat i) name else name)"

text \<open>The prompt of \<open>DreamBoothDataset.__getitem__\<close> when captions come from file names.\<close>

definition flat_filename_prompt :: "string \<Rightarrow> string" where
  "flat_filename_prompt filename =
     (let pt = filter (\<lambda>i. \<not> isdigit i) filename;
          pt = replace ''_'' '' '' pt;
          pt = replace ''('' '''' pt;
          pt = replace '')'' '''' pt;
          pt = replace ''-'' '''' pt
      in pt)"

text \<open>The prompt of \<open>SubfolderModeDataset.__getitem__\<close>: the same, then three comma passes.\<close>

definition subfolder_filename_prompt :: "string \<Rightarrow> string" where
  "subfolder_filename_prompt filename =
     (let pt = filter (\<lambda>i. \<not> isdigit i) filename;
          pt = replace ''_'' '' '' pt;
          pt = replace ''('' '''' pt;
          pt = replace '')'' '''' pt;
          pt = replace ''-'' '''' pt;
          pt = replace '',,'' '','' (replace '',,'' '','' (replace '',,'' '','' pt))
      in pt)"

text \<open>
  The statement to compare the comma passes with: every maximal run of \<open>n\<close> commas is
  replaced by a run of \<open>f n\<close> commas, everything else is kept.
\<close>

function comma_runs :: "(nat \<Rightarrow> nat) \<Rightarrow> string \<Rightarrow> string" where
  "comma_runs f [] = []"
| "comma_runs f (x # xs) =
     (if x = CHR '',''
      then replicate (f (Suc (length (takeWhile (\<lambda>c. c = CHR '','') xs)))) (CHR '','')
             @ comma_runs f (dropWhile (\<lambda>c. c = CHR '','') xs)
      else x # comma_runs f xs)"
  by pat_completeness auto
termination
  by (relation "measure (\<lambda>(f, s). length s)")
     (auto simp: length_dropWhile_le less_Suc_eq_le)

section \<open>SubfolderModeDataset\<close>

record SubfolderModeDataset =
  classes :: "string \<rightharpoonup> ClassDataProvider"
  instance_images_path :: "path list"
  num_instance_images :: nat
  dataset_length :: nat

text \<open>\<open>Path.iterdir\<close>: the entries of a directory; a regular file raises.\<close>

fun iterdir :: "fs_node \<Rightarrow> py_error + (string \<times> fs_node) list" where
  "iterdir File = Inl NotADirectoryError"
| "iterdir (Dir es) = Inr es"

text \<open>
  The inner loop over \<open>instance_images_dirs\<close>: the regular files of every group directory
  are appended, each as class / group / file.
\<close>

fun extend_images :: "string \<Rightarrow> (string \<times> fs_node) list \<Rightarrow> path list \<Rightarrow> py_error + path list" where
  "extend_images cls [] acc = Inr acc"
| "extend_images cls (instance_images_dir # dirs) acc =
     (case iterdir (snd instance_images_dir) of
        Inl e \<Rightarrow> Inl e
      | Inr es \<Rightarrow>
          extend_images cls dirs
            (acc @ map (\<lambda>x. [cls, fst instance_images_dir, fst x])
                       (filter (\<lambda>x. \<not> is_dir (snd x)) es)))"

text \<open>
  The loop over \<open>class_subdirs\<close>: a provider for the class, then the group directories of
  the class subfolder, at most five.
\<close>

fun class_subdirs_loop ::
  "(string \<times> fs_node) list \<Rightarrow> (string \<times> fs_node) list
     \<Rightarrow> (string \<rightharpoonup> ClassDataProvider) \<times> path list
     \<Rightarrow> py_error + ((string \<rightharpoonup> ClassDataProvider) \<times> path list)" where
  "class_subdirs_loop class_data_root [] st = Inr st"
| "class_subdirs_loop class_data_root (class_subdir # rest) st =
     (case ClassDataProvider_init class_data_root (fst class_subdir) of
        Inl e \<Rightarrow> Inl e
      | Inr provider \<Rightarrow>
          (case iterdir (snd class_subdir) of
             Inl e \<Rightarrow> Inl e
           | Inr es \<Rightarrow>
               (let instance_images_dirs = filter (\<lambda>x. is_dir (snd x)) es;
                    cs = (fst st)(fst class_subdir \<mapsto> provider)
                in if length instance_images_dirs > 0
                   then if length instance_images_dirs > 5
                        then Inl (ValueError ''Instance image directories exceed memory limit.'')
                        else (case extend_images (fst class_subdir) instance_images_dirs (snd st) of
                                Inl e \<Rightarrow> Inl e
                              | Inr imgs \<Rightarrow> class_subdirs_loop class_data_root rest (cs, imgs))
                   else class_subdirs_loop class_data_root rest (cs, snd st))))"

text \<open>
  \<open>SubfolderModeDataset.__init__\<close>, up to the lengths. The instance root is \<open>None\<close> when the path
  does not exist.
\<close>

definition SubfolderModeDataset_init ::
  "fs_node option \<Rightarrow> (string \<times> fs_node) list \<Rightarrow> py_error + SubfolderModeDataset" where
  "SubfolderModeDataset_init instance_data_root class_data_root =
     (case instance_data_root of
        None \<Rightarrow> Inl (ValueError ''Instance images root doesn't exists.'')
      | Some node \<Rightarrow>
          (case iterdir node of
             Inl e \<Rightarrow> Inl e
           | Inr es \<Rightarrow>
               (let class_subdirs = filter (\<lambda>x. is_dir (snd x)) es
                in if length class_subdirs \<le> 0
                   then Inl (ValueError ''Instance image root directory does not have any class subfolders.'')
                   else if length class_subdirs > 3
                   then Inl (ValueError ''Class subfolders exceed memory limit.'')
                   else (case class_subdirs_loop class_data_root class_subdirs (Map.empty, []) of
                           Inl e \<Rightarrow> Inl e
                         | Inr (cs, imgs) \<Rightarrow>
                             Inr \<lparr>classes = cs, instance_images_path = imgs,
                                  num_instance_images = length imgs,
                                  dataset_length = length imgs\<rparr>))))"

text \<open>The number of group directories of a class subfolder.\<close>

definition group_count :: "fs_node \<Rightarrow> nat" where
  "group_count d = (case d of File \<Rightarrow> 0 | Dir es \<Rightarrow> length (filter (\<lambda>x. is_dir (snd x)) es))"

section \<open>Batch collation\<close>

text \<open>
  A training example is the dictionary that \<open>__getitem__\<close> returns: the class keys are there
  only when the dataset has class images. A pixel tensor is a value of type \<open>'px\<close>; only its
  shape matters to the collation.
\<close>

record 'px example =
  instance_images :: 'px
  instance_prompt_ids :: "int list"
  example_class_images :: "'px option"
  class_prompt_ids :: "int list option"

record 'px batch =
  input_ids :: "int list list"
  pixel_values :: "'px list"

text \<open>\<open>[example[key] for example in examples]\<close> for a key that may be missing.\<close>

fun lookup_all :: "string \<Rightarrow> 'a option list \<Rightarrow> py_error + 'a list" where
  "lookup_all key [] = Inr []"
| "lookup_all key (None # vs) = Inl (KeyError key)"
| "lookup_all key (Some v # vs) =
     (case lookup_all key vs of Inl e \<Rightarrow> Inl e | Inr rest \<Rightarrow> Inr (v # rest))"

text \<open>
  \<open>torch.stack\<close> along a new first dimension: the list of tensors becomes the batch
  dimension; an empty list or tensors of different shapes raise.
\<close>

definition stack :: "('px \<Rightarrow> nat list) \<Rightarrow> 'px list \<Rightarrow> py_error + 'px list" where
  "stack shape xs =
     (case xs of
        [] \<Rightarrow> Inl RuntimeError
      | x # _ \<Rightarrow> if list_all (\<lambda>y. shape y = shape x) xs then Inr xs else Inl RuntimeError)"

text \<open>
  \<open>tokenizer.pad(..., padding=True)\<close>: every row is filled on the right with the pad token up
  to the length of the longest row.
\<close>

definition pad_longest :: "int \<Rightarrow> int list list \<Rightarrow> int list list" where
  "pad_longest pad_token_id rows =
     (let longest = fold max (map length rows) 0
      in map (\<lambda>r. r @ replicate (longest - length r) pad_token_id) rows)"

definition collate_fn ::
  "bool \<Rightarrow> ('px \<Rightarrow> nat list) \<Rightarrow> int \<Rightarrow> 'px example list \<Rightarrow> py_error + 'px batch" where
  "collate_fn prior_preservation shape pad_token_id examples =
     (let ids = map instance_prompt_ids examples;
          pixels = map instance_images examples
      in case (if prior_preservation
               then (case lookup_all ''class_prompt_ids'' (map class_prompt_ids examples) of
                       Inl e \<Rightarrow> Inl e
                     | Inr class_ids \<Rightarrow>
                         (case lookup_all ''class_images'' (map example_class_images examples) of
                            Inl e \<Rightarrow> Inl e
                          | Inr class_pixels \<Rightarrow> Inr (ids @ class_ids, pixels @ class_pixels)))
               else Inr (ids, pixels)) of
           Inl e \<Rightarrow> Inl e
         | Inr (ids', pixels') \<Rightarrow>
             (case stack shape pixels' of
                Inl e \<Rightarrow> Inl e
              | Inr stacked \<Rightarrow>
                  Inr \<lparr>input_ids = pad_longest pad_token_id ids', pixel_values = stacked\<rparr>))"

section \<open>Session sidecar\<close>

text \<open>
  The values \<open>json.load\<close> returns. Numbers with a fraction or an exponent are left out; an
  object is the dictionary built from it, its keys distinct, in insertion order.
\<close>

datatype json =
    JNull
  | JBool bool
  | JInt int
  | JString string
  | JArray "json list"
  | JObject "(string \<times> json) list"








section \<open>Training loss\<close>








section \<open>Training loop, freeze and periodic export\<close>


text \<open>
  What the loop does to the world, in order. Weights are identified by the number of
  optimizer updates they have received in this run; a working directory is identified by
  the step number in its name. The paths of the frozen snapshot and of the working
  directories hold directories or nothing.
\<close>

datatype event =
    Rmtree_frozen
  | Mkdir_frozen
  | Save_text_encoder nat
  | Not_frozen_message
  | Mkdir_save int
  | Saving_message int
  | Save_pipeline int nat nat
  | Restore_frozen int
  | Convert int
  | Rmtree_save int












text \<open>The number of times the snapshot of the text encoder was written.\<close>

fun is_snapshot :: "event \<Rightarrow> bool" where
  "is_snapshot (Save_text_encoder w) = True"
| "is_snapshot other = False"

section \<open>Round-robin class images\<close>

lemma take_many_round_robin:
  assumes "cursor p < length (class_images p)"
  shows "take_many n p =
           Inr (map (\<lambda>j. class_images p ! ((cursor p + j) mod length (class_images p))) [0..<n],
                p\<lparr>cursor := (cursor p + n) mod length (class_images p)\<rparr>)"
  using assms
proof (induction n arbitrary: p)
  case 0
  then show ?case by simp
next
  case (Suc n)
  let ?k = "length (class_images p)"
  let ?p' = "p\<lparr>cursor := (cursor p + 1) mod ?k\<rparr>"
  have one: "take_one p = Inr (class_images p ! cursor p, ?p')"
    using Suc.prems by (simp add: take_one_def)
  have kpos: "0 < ?k"
    using Suc.prems by arith
  have inv: "cursor ?p' < length (class_images ?p')"
    using kpos by simp
  have shift: "map (\<lambda>j. class_images p ! (((cursor p + 1) mod ?k + j) mod ?k)) [0..<n]
             = map (\<lambda>j. class_images p ! ((cursor p + j) mod ?k)) [1..<Suc n]"
  proof -
    have "[1..<Suc n] = map Suc [0..<n]"
      by (simp add: map_Suc_upt)
    moreover have "\<And>j. ((cursor p + 1) mod ?k + j) mod ?k = (cursor p + Suc j) mod ?k"
      by (simp add: mod_add_left_eq)
    ultimately show ?thesis by (simp add: comp_def)
  qed
  have split_upt: "[0..<Suc n] = 0 # [1..<Suc n]"
    by (simp add: upt_rec)
  have cur: "((cursor p + 1) mod ?k + n) mod ?k = (cursor p + Suc n) mod ?k"
    by (simp add: mod_add_left_eq)
  have head: "class_images p ! cursor p = class_images p ! ((cursor p + 0) mod ?k)"
    using Suc.prems by simp
  show ?case
    unfolding take_many.simps one
    using Suc.IH [OF inv] shift cur head Suc.prems
    by (simp add: split_upt del: upt_Suc)
qed

lemma init_ok:
  assumes "map_of class_data_root prompt = Some (Dir es)"
      and "filter (\<lambda>x. \<not> is_dir (snd x)) es \<noteq> []"
  shows "ClassDataProvider_init class_data_root prompt =
           Inr \<lparr>class_prompt = prompt,
                class_images = map (\<lambda>x. [prompt, fst x]) (filter (\<lambda>x. \<not> is_dir (snd x)) es),
                cursor = 0\<rparr>"
  using assms by (simp add: ClassDataProvider_init_def mkdir_iterdir_def Let_def)

lemma init_empty:
  assumes "map_of class_data_root prompt = Some (Dir es)"
      and "length (filter (\<lambda>x. \<not> is_dir (snd x)) es) = 0"
  shows "ClassDataProvider_init class_data_root prompt = Inl (ValueError ''Empty class directory'')"
  using assms by (simp add: ClassDataProvider_init_def mkdir_iterdir_def Let_def)

lemma distinct_images:
  fixes prompt :: string
  assumes "distinct (map fst es)"
  shows "distinct (map (\<lambda>x. [prompt, fst x]) (filter P es))"
proof -
  have "distinct (map fst (filter P es))"
    using assms by (rule distinct_map_filter)
  moreover have "inj (\<lambda>n::string. [prompt, n])"
    by (simp add: inj_def)
  ultimately have "distinct (map (\<lambda>n. [prompt, n]) (map fst (filter P es)))"
    by (simp add: distinct_map inj_on_def)
  then show ?thesis by (simp add: comp_def)
qed

lemma map_mod_upt_id:
  "map (\<lambda>j. xs ! ((0 + j) mod length xs)) [0..<length xs] = xs"
  by (rule nth_equalityI) simp_all

text \<open>
  Claim C2. A provider built over a class directory with \<open>k\<close> regular files (entries of a
  directory have distinct names) fails with a ValueError when \<open>k = 0\<close>. When \<open>k \<ge> 1\<close> it starts
  with cursor 0; after any number \<open>n\<close> of \<open>take_one\<close> calls the cursor is \<open>n mod k\<close>, below \<open>k\<close>, and
  the next call returns image \<open>n mod k\<close> and moves the cursor to \<open>(cursor + 1) mod k\<close>; the first
  \<open>k\<close> calls return the \<open>k\<close> distinct image paths in listing order, each once, and call
  \<open>k + 1\<close> returns the first path again.
\<close>

theorem class_provider_round_robin:
  assumes dir: "map_of class_data_root prompt = Some (Dir es)"
      and names: "distinct (map fst es)"
      and k: "k = length (filter (\<lambda>x. \<not> is_dir (snd x)) es)"
  shows "(k = 0 \<longrightarrow> (\<exists>msg. ClassDataProvider_init class_data_root prompt = Inl (ValueError msg)))
       \<and> (1 \<le> k \<longrightarrow>
            (\<exists>p. ClassDataProvider_init class_data_root prompt = Inr p
               \<and> cursor p = 0
               \<and> class_images p = map (\<lambda>x. [prompt, fst x]) (filter (\<lambda>x. \<not> is_dir (snd x)) es)
               \<and> length (class_images p) = k
               \<and> distinct (class_images p)
               \<and> (\<forall>n. \<exists>rs q. take_many n p = Inr (rs, q)
                      \<and> class_images q = class_images p
                      \<and> cursor q < k
                      \<and> cursor q = n mod k
                      \<and> (\<exists>q'. take_one q = Inr (class_images p ! (n mod k), q')
                            \<and> class_images q' = class_images p
                            \<and> cursor q' = (cursor q + 1) mod k
                            \<and> cursor q' < k))
               \<and> (\<exists>q. take_many k p = Inr (class_images p, q))
               \<and> (\<exists>rs q. take_many (k + 1) p = Inr (rs, q) \<and> rs ! k = rs ! 0)))"
proof (intro conjI impI)
  assume "k = 0"
  then show "\<exists>msg. ClassDataProvider_init class_data_root prompt = Inl (ValueError msg)"
    using init_empty [OF dir] k by auto
next
  assume k1: "1 \<le> k"
  let ?imgs = "map (\<lambda>x. [prompt, fst x]) (filter (\<lambda>x. \<not> is_dir (snd x)) es)"
  let ?p = "\<lparr>class_prompt = prompt, class_images = ?imgs, cursor = 0\<rparr>"
  have init: "ClassDataProvider_init class_data_root prompt = Inr ?p"
  proof (rule init_ok [OF dir])
    show "filter (\<lambda>x. \<not> is_dir (snd x)) es \<noteq> []"
      using k1 k by (cases "filter (\<lambda>x. \<not> is_dir (snd x)) es") simp_all
  qed
  have len: "length ?imgs = k"
    using k by simp
  have inv0: "cursor ?p < length (class_images ?p)"
    using k1 len by simp
  note rr = take_many_round_robin [OF inv0]
  have steps: "\<exists>rs q. take_many n ?p = Inr (rs, q)
                 \<and> class_images q = class_images ?p
                 \<and> cursor q < k
                 \<and> cursor q = n mod k
                 \<and> (\<exists>q'. take_one q = Inr (class_images ?p ! (n mod k), q')
                       \<and> class_images q' = class_images ?p
                       \<and> cursor q' = (cursor q + 1) mod k
                       \<and> cursor q' < k)" for n
  proof -
    let ?q = "?p\<lparr>cursor := (cursor ?p + n) mod length (class_images ?p)\<rparr>"
    have kpos: "0 < k" using k1 by simp
    have "take_many n ?p = Inr (map (\<lambda>j. class_images ?p ! ((cursor ?p + j) mod length (class_images ?p))) [0..<n], ?q)"
      by (rule rr)
    moreover have "cursor ?q = n mod k" using len by simp
    moreover have "cursor ?q < k" using len kpos by simp
    moreover have "take_one ?q = Inr (class_images ?p ! (n mod k), ?q\<lparr>cursor := (cursor ?q + 1) mod k\<rparr>)"
      using len kpos by (simp add: take_one_def)
    moreover have "cursor (?q\<lparr>cursor := (cursor ?q + 1) mod k\<rparr>) < k"
      using kpos by simp
    ultimately show ?thesis
      by (intro exI conjI) (assumption | simp)+
  qed
  have full: "take_many k ?p = Inr (class_images ?p, ?p\<lparr>cursor := (cursor ?p + k) mod length (class_images ?p)\<rparr>)"
    using rr [of k] map_mod_upt_id [of ?imgs] len by simp
  have wrap: "\<exists>rs q. take_many (k + 1) ?p = Inr (rs, q) \<and> rs ! k = rs ! 0"
  proof -
    have kpos: "0 < k" using k1 by simp
    let ?rs = "map (\<lambda>j. class_images ?p ! ((cursor ?p + j) mod length (class_images ?p))) [0..<k + 1]"
    have a: "?rs ! k = ?imgs ! (k mod k)"
      using len by (simp add: nth_append del: upt_Suc)
    have b: "?rs ! 0 = ?imgs ! (0 mod k)"
      using len kpos by (simp add: upt_rec [of 0] del: upt_Suc)
    have "?rs ! k = ?rs ! 0" using a b by simp
    then show ?thesis using rr [of "k + 1"] by blast
  qed
  show "\<exists>p. ClassDataProvider_init class_data_root prompt = Inr p
               \<and> cursor p = 0
               \<and> class_images p = ?imgs
               \<and> length (class_images p) = k
               \<and> distinct (class_images p)
               \<and> (\<forall>n. \<exists>rs q. take_many n p = Inr (rs, q)
                      \<and> class_images q = class_images p
                      \<and> cursor q < k
                      \<and> cursor q = n mod k
                      \<and> (\<exists>q'. take_one q = Inr (class_images p ! (n mod k), q')
                            \<and> class_images q' = class_images p
                            \<and> cursor q' = (cursor q + 1) mod k
                            \<and> cursor q' < k))
               \<and> (\<exists>q. take_many k p = Inr (class_images p, q))
               \<and> (\<exists>rs q. take_many (k + 1) p = Inr (rs, q) \<and> rs ! k = rs ! 0)"
  proof (rule exI [of _ ?p], intro conjI allI)
    show "ClassDataProvider_init class_data_root prompt = Inr ?p" by (rule init)
    show "cursor ?p = 0" by simp
    show "class_images ?p = ?imgs" by simp
    show "length (class_images ?p) = k" using len by simp
    show "distinct (class_images ?p)" using distinct_images [OF names] by simp
    show "\<exists>q. take_many k ?p = Inr (class_images ?p, q)" using full by blast
    show "\<exists>rs q. take_many (k + 1) ?p = Inr (rs, q) \<and> rs ! k = rs ! 0" by (rule wrap)
    fix n
    show "\<exists>rs q. take_many n ?p = Inr (rs, q)
                 \<and> class_images q = class_images ?p
                 \<and> cursor q < k
                 \<and> cursor q = n mod k
                 \<and> (\<exists>q'. take_one q = Inr (class_images ?p ! (n mod k), q')
                       \<and> class_images q' = class_images ?p
                       \<and> cursor q' = (cursor q + 1) mod k
                       \<and> cursor q' < k)" by (rule steps)
  qed
qed


text \<open>A directory with two images and one subdirectory: the subdirectory is skipped.\<close>

theorem class_provider_round_robin_witness:
  "map_of [(''dog'', Dir [(''a.jpg'', File), (''sub'', Dir []), (''b.jpg'', File)])] ''dog''
     = Some (Dir [(''a.jpg'', File), (''sub'', Dir []), (''b.jpg'', File)])
   \<and> distinct (map fst [(''a.jpg'', File), (''sub'', Dir []), (''b.jpg'', File)])
   \<and> (2::nat) = length (filter (\<lambda>x. \<not> is_dir (snd x))
                           [(''a.jpg'', File), (''sub'', Dir []), (''b.jpg'', File)])
   \<and> (\<exists>p. ClassDataProvider_init
              [(''dog'', Dir [(''a.jpg'', File), (''sub'', Dir []), (''b.jpg'', File)])] ''dog'' = Inr p
          \<and> class_images p = [[''dog'', ''a.jpg''], [''dog'', ''b.jpg'']]
          \<and> (\<exists>q. take_many 2 p = Inr ([[''dog'', ''a.jpg''], [''dog'', ''b.jpg'']], q))
          \<and> (\<exists>rs q. take_many 3 p = Inr (rs, q) \<and> rs ! 2 = rs ! 0))"
proof -
  let ?es = "[(''a.jpg'', File), (''sub'', Dir []), (''b.jpg'', File)]"
  have h1: "map_of [(''dog'', Dir ?es)] ''dog'' = Some (Dir ?es)" by simp
  have h2: "distinct (map fst ?es)" by simp
  have h3: "(2::nat) = length (filter (\<lambda>x. \<not> is_dir (snd x)) ?es)" by simp
  have three: "(2::nat) + 1 = 3" by simp
  from class_provider_round_robin [OF h1 h2 h3]
  obtain p where p: "ClassDataProvider_init [(''dog'', Dir ?es)] ''dog'' = Inr p"
      "class_images p = map (\<lambda>x. [''dog'', fst x]) (filter (\<lambda>x. \<not> is_dir (snd x)) ?es)"
      "\<exists>q. take_many 2 p = Inr (class_images p, q)"
      "\<exists>rs q. take_many (2 + 1) p = Inr (rs, q) \<and> rs ! 2 = rs ! 0"
    by auto
  have imgs: "class_images p = [[''dog'', ''a.jpg''], [''dog'', ''b.jpg'']]"
    using p(2) by simp
  show ?thesis
    using h1 h2 h3 p(1) p(3) p(4) imgs unfolding three by auto
qed

section \<open>Subfolder mode overrides the configuration\<close>

text \<open>
  Claim C10. Whenever \<open>subfolder_mode\<close> is set and the checks of \<open>parse_args\<close> pass, the
  configuration that \<open>main\<close> goes on with has prior preservation on, filename captions on and
  the prior loss weight 1.0, whatever the command line gave for them; nothing else changes.
\<close>

theorem subfolder_mode_overrides:
  assumes "main_args a = Inr a'" and "subfolder_mode a"
  shows "with_prior_preservation a' \<and> image_captions_filename a' \<and> prior_loss_weight a' = 1.0
       \<and> a' = a\<lparr>image_captions_filename := True, with_prior_preservation := True,
                 prior_loss_weight := 1.0\<rparr>"
  using assms
  by (auto simp: main_args_def parse_args_checks_def subfolder_overrides_def
           split: if_splits sum.splits)

theorem subfolder_mode_overrides_witness:
  "main_args \<lparr>instance_data_dir = Some ''inst'', class_data_dir = Some ''cls'',
              arg_class_prompt = None, subfolder_mode = True,
              with_prior_preservation = False, image_captions_filename = False,
              prior_loss_weight = 0.5\<rparr>
     = Inr \<lparr>instance_data_dir = Some ''inst'', class_data_dir = Some ''cls'',
              arg_class_prompt = None, subfolder_mode = True,
              with_prior_preservation = True, image_captions_filename = True,
              prior_loss_weight = 1.0\<rparr>
   \<and> subfolder_mode \<lparr>instance_data_dir = Some ''inst'', class_data_dir = Some ''cls'',
              arg_class_prompt = None, subfolder_mode = True,
              with_prior_preservation = False, image_captions_filename = False,
              prior_loss_weight = 0.5\<rparr>
   \<and> with_prior_preservation \<lparr>instance_data_dir = Some ''inst'', class_data_dir = Some ''cls'',
              arg_class_prompt = None, subfolder_mode = True,
              with_prior_preservation = True, image_captions_filename = True,
              prior_loss_weight = 1.0\<rparr>"
proof -
  let ?a = "\<lparr>instance_data_dir = Some ''inst'', class_data_dir = Some ''cls'',
              arg_class_prompt = None, subfolder_mode = True,
              with_prior_preservation = False, image_captions_filename = False,
              prior_loss_weight = 0.5\<rparr>"
  let ?a' = "\<lparr>instance_data_dir = Some ''inst'', class_data_dir = Some ''cls'',
              arg_class_prompt = None, subfolder_mode = True,
              with_prior_preservation = True, image_captions_filename = True,
              prior_loss_weight = 1.0\<rparr>"
  have h1: "main_args ?a = Inr ?a'"
    by (simp add: main_args_def parse_args_checks_def subfolder_overrides_def)
  have h2: "subfolder_mode ?a" by simp
  from subfolder_mode_overrides [OF h1 h2] show ?thesis using h1 h2 by simp
qed

section \<open>Prompt derivation\<close>

lemma replace_single:
  "replace [c] new s = concat (map (\<lambda>x. if x = c then new else [x]) s)"
  by (induction s) simp_all

lemma flat_filename_prompt_eq:
  "flat_filename_prompt s =
     map (\<lambda>c. if c = CHR ''_'' then CHR '' '' else c)
       (filter (\<lambda>c. \<not> isdigit c \<and> c \<noteq> CHR ''('' \<and> c \<noteq> CHR '')'' \<and> c \<noteq> CHR ''-'') s)"
  unfolding flat_filename_prompt_def Let_def replace_single
  by (induction s) simp_all

lemma comma_pass_other:
  "x \<noteq> CHR '','' \<Longrightarrow> replace '',,'' '','' (x # xs) = x # replace '',,'' '','' xs"
  by simp

lemma comma_pass_two:
  "replace '',,'' '','' (CHR '','' # CHR '','' # xs) = CHR '','' # replace '',,'' '','' xs"
  by simp

lemma comma_pass_one:
  assumes "takeWhile (\<lambda>c. c = CHR '','') v = []"
  shows "replace '',,'' '','' (CHR '','' # v) = CHR '','' # replace '',,'' '','' v"
  using assms by (cases v) (simp_all split: if_splits)

lemma comma_pass_start:
  assumes "takeWhile (\<lambda>c. c = CHR '','') v = []"
  shows "takeWhile (\<lambda>c. c = CHR '','') (replace '',,'' '','' v) = []"
  using assms by (cases v) (simp_all split: if_splits)

lemma comma_pass_run:
  assumes "takeWhile (\<lambda>c. c = CHR '','') v = []"
  shows "replace '',,'' '','' (replicate n (CHR '','') @ v)
           = replicate ((n + 1) div 2) (CHR '','') @ replace '',,'' '','' v"
proof (induction n rule: less_induct)
  case (less n)
  show ?case
  proof (cases n)
    case 0
    then show ?thesis by simp
  next
    case (Suc m)
    show ?thesis
    proof (cases m)
      case 0
      with Suc show ?thesis using comma_pass_one [OF assms] by simp
    next
      case (Suc j)
      have n: "n = Suc (Suc j)" using \<open>n = Suc m\<close> Suc by simp
      have "j < n" using n by simp
      from less.IH [OF this] show ?thesis
        unfolding n by (simp del: replace.simps add: comma_pass_two)
    qed
  qed
qed

lemma three_halvings: "(((n + 1) div 2 + 1) div 2 + 1) div 2 = (n + 7) div (8::nat)"
proof -
  have a: "(n + 1) div 2 + 1 = (n + 3) div 2" by arith
  have b: "(n + 3) div 2 div 2 = (n + 3) div 4"
    using div_mult2_eq [of "n + 3" 2 2] by simp
  have c: "(n + 3) div 4 + 1 = (n + 7) div 4" by arith
  have d: "(n + 7) div 4 div 2 = (n + 7) div 8"
    using div_mult2_eq [of "n + 7" 4 2] by simp
  show ?thesis unfolding a b c d ..
qed

lemma comma_passes_run:
  assumes "takeWhile (\<lambda>c. c = CHR '','') v = []"
  shows "replace '',,'' '','' (replace '',,'' '','' (replace '',,'' '','' (replicate n (CHR '','') @ v)))
           = replicate ((n + 7) div 8) (CHR '','')
             @ replace '',,'' '','' (replace '',,'' '','' (replace '',,'' '','' v))"
proof -
  note s1 = comma_pass_start [OF assms]
  note s2 = comma_pass_start [OF s1]
  show ?thesis
    unfolding comma_pass_run [OF assms] comma_pass_run [OF s1] comma_pass_run [OF s2]
      three_halvings ..
qed

lemma takeWhile_commas:
  "takeWhile (\<lambda>c. c = CHR '','') xs = replicate (length (takeWhile (\<lambda>c. c = CHR '','') xs)) (CHR '','')"
  by (induction xs) simp_all

lemma comma_passes_eq:
  "replace '',,'' '','' (replace '',,'' '','' (replace '',,'' '','' s))
     = comma_runs (\<lambda>n. (n + 7) div 8) s"
proof (induction "\<lambda>n::nat. (n + 7) div 8" s rule: comma_runs.induct)
  case 1
  show ?case by simp
next
  case (2 x xs)
  show ?case
  proof (cases "x = CHR '',''")
    case False
    with 2 show ?thesis by simp
  next
    case True
    let ?t = "takeWhile (\<lambda>c. c = CHR '','') xs"
    let ?d = "dropWhile (\<lambda>c. c = CHR '','') xs"
    have shape: "x # xs = replicate (Suc (length ?t)) (CHR '','') @ ?d"
    proof -
      have "xs = ?t @ ?d" by simp
      then have "xs = replicate (length ?t) (CHR '','') @ ?d"
        using takeWhile_commas [of xs] by simp
      then show ?thesis using True by simp
    qed
    have start: "takeWhile (\<lambda>c. c = CHR '','') ?d = []"
      by (induction xs) simp_all
    have "replace '',,'' '','' (replace '',,'' '','' (replace '',,'' '','' (x # xs)))
            = replicate ((Suc (length ?t) + 7) div 8) (CHR '','')
              @ replace '',,'' '','' (replace '',,'' '','' (replace '',,'' '','' ?d))"
      using comma_passes_run [OF start, of "Suc (length ?t)"] unfolding shape [symmetric] .
    also have "\<dots> = replicate ((Suc (length ?t) + 7) div 8) (CHR '','')
              @ comma_runs (\<lambda>n. (n + 7) div 8) ?d"
      using 2(1) [OF True] by simp
    also have "\<dots> = comma_runs (\<lambda>n. (n + 7) div 8) (x # xs)"
      using True by simp
    finally show ?thesis .
  qed
qed

text \<open>
  Claim C6, as the code has it. The flat dataset removes every character that \<open>isdigit\<close>
  accepts and every parenthesis and hyphen, and turns underscores into spaces; nothing is
  trimmed. The subfolder dataset does the same and then runs \<open>replace(",,", ",")\<close> three
  times, which turns every maximal run of \<open>n\<close> commas into \<open>(n + 7) div 8\<close> commas: one
  comma for runs of up to eight, more for longer runs. The file name \<open>sks_person (2).jpg\<close>
  gives \<open>sks person\<close> followed by a space; the stem \<open>a,,b,,c\<close> gives \<open>a,b,c\<close> in subfolder mode
  and is kept as it is by the flat dataset; a run of nine commas is left as two.
\<close>

theorem filename_prompt_derivation:
  "flat_filename_prompt s =
     map (\<lambda>c. if c = CHR ''_'' then CHR '' '' else c)
       (filter (\<lambda>c. \<not> isdigit c \<and> c \<noteq> CHR ''('' \<and> c \<noteq> CHR '')'' \<and> c \<noteq> CHR ''-'') s)
   \<and> subfolder_filename_prompt s = comma_runs (\<lambda>n. (n + 7) div 8) (flat_filename_prompt s)
   \<and> flat_filename_prompt (stem ''sks_person (2).jpg'') = ''sks person ''
   \<and> subfolder_filename_prompt (stem ''sks_person (2).jpg'') = ''sks person ''
   \<and> subfolder_filename_prompt ''a,,b,,c'' = ''a,b,c''
   \<and> flat_filename_prompt ''a,,b,,c'' = ''a,,b,,c''
   \<and> subfolder_filename_prompt ''a,,,,,,,,,b'' = ''a,,b''"
proof -
  have sub: "subfolder_filename_prompt s = comma_runs (\<lambda>n. (n + 7) div 8) (flat_filename_prompt s)"
    unfolding subfolder_filename_prompt_def flat_filename_prompt_def Let_def comma_passes_eq ..
  have e1: "flat_filename_prompt (stem ''sks_person (2).jpg'') = ''sks person ''"
    by code_simp
  have e2: "subfolder_filename_prompt (stem ''sks_person (2).jpg'') = ''sks person ''"
    by code_simp
  have e3: "subfolder_filename_prompt ''a,,b,,c'' = ''a,b,c''"
    by code_simp
  have e4: "flat_filename_prompt ''a,,b,,c'' = ''a,,b,,c''"
    by code_simp
  have e5: "subfolder_filename_prompt ''a,,,,,,,,,b'' = ''a,,b''"
    by code_simp
  show ?thesis
    using flat_filename_prompt_eq [of s] sub e1 e2 e3 e4 e5 by blast
qed

text \<open>
  Claim C6, as stated, at \<open>sks_person (2).jpg\<close>: the space before the parenthesis stays, so
  the prompt is not \<open>sks person\<close>.
\<close>

theorem filename_prompt_trailing_space:
  "subfolder_filename_prompt (stem ''sks_person (2).jpg'') \<noteq> ''sks person''"
  by code_simp

section \<open>Caps of the subfolder dataset\<close>

lemma extend_images_dirs:
  assumes "\<forall>d \<in> set dirs. is_dir (snd d)"
  shows "\<exists>imgs. extend_images cls dirs acc = Inr imgs"
  using assms
proof (induction dirs arbitrary: acc)
  case Nil
  show ?case by simp
next
  case (Cons d dirs)
  from Cons.prems obtain es where "snd d = Dir es"
    by (cases "snd d") auto
  with Cons show ?case by simp
qed

lemma class_subdirs_loop_over_cap:
  assumes "\<exists>c \<in> set cs. 5 < group_count (snd c)"
  shows "\<exists>e. class_subdirs_loop class_data_root cs st = Inl e"
  using assms
proof (induction cs arbitrary: st)
  case Nil
  then show ?case by simp
next
  case (Cons c cs)
  show ?case
  proof (cases "5 < group_count (snd c)")
    case True
    then obtain es where es: "snd c = Dir es" "5 < length (filter (\<lambda>x. is_dir (snd x)) es)"
      by (cases "snd c") (auto simp: group_count_def)
    then have ne: "filter (\<lambda>x. is_dir (snd x)) es \<noteq> []"
      by auto
    show ?thesis
      using es ne by (simp add: Let_def split: sum.splits)
  next
    case False
    with Cons.prems have "\<exists>c \<in> set cs. 5 < group_count (snd c)" by auto
    from Cons.IH [OF this] show ?thesis
      by (auto simp: Let_def split: sum.splits)
  qed
qed

lemma class_subdirs_loop_within_cap:
  assumes "\<forall>c \<in> set cs. is_dir (snd c) \<and> group_count (snd c) \<le> 5
             \<and> (\<exists>p. ClassDataProvider_init class_data_root (fst c) = Inr p)"
  shows "\<exists>r. class_subdirs_loop class_data_root cs st = Inr r"
  using assms
proof (induction cs arbitrary: st)
  case Nil
  show ?case by simp
next
  case (Cons c cs)
  from Cons.prems obtain es p where c: "snd c = Dir es"
      "length (filter (\<lambda>x. is_dir (snd x)) es) \<le> 5"
      "ClassDataProvider_init class_data_root (fst c) = Inr p"
    by (cases "snd c") (auto simp: group_count_def)
  have rest: "\<forall>c \<in> set cs. is_dir (snd c) \<and> group_count (snd c) \<le> 5
             \<and> (\<exists>p. ClassDataProvider_init class_data_root (fst c) = Inr p)"
    using Cons.prems by simp
  have dirs: "\<forall>d \<in> set (filter (\<lambda>x. is_dir (snd x)) es). is_dir (snd d)" by simp
  from extend_images_dirs [OF dirs] obtain imgs where
    imgs: "extend_images (fst c) (filter (\<lambda>x. is_dir (snd x)) es) (snd st) = Inr imgs"
    by blast
  show ?case
    using c imgs Cons.IH [OF rest] by (simp add: Let_def)
qed

text \<open>
  Claim C7. Over an instance root that is a directory, the construction of the subfolder
  dataset fails with a ValueError when the root has more than three class subfolders or
  none, and fails when some class subfolder has more than five group directories. With one
  to three class subfolders, at most five group directories in each, and a class directory
  with at least one image for every class, it succeeds; three and five are inside.
\<close>

theorem subfolder_dataset_caps:
  assumes root: "instance_data_root = Some (Dir es)"
      and subs: "class_subdirs = filter (\<lambda>x. is_dir (snd x)) es"
  shows "(3 < length class_subdirs \<longrightarrow>
            (\<exists>msg. SubfolderModeDataset_init instance_data_root class_data_root = Inl (ValueError msg)))
       \<and> (length class_subdirs = 0 \<longrightarrow>
            (\<exists>msg. SubfolderModeDataset_init instance_data_root class_data_root = Inl (ValueError msg)))
       \<and> ((\<exists>c \<in> set class_subdirs. 5 < group_count (snd c)) \<longrightarrow>
            (\<exists>e. SubfolderModeDataset_init instance_data_root class_data_root = Inl e))
       \<and> (1 \<le> length class_subdirs \<and> length class_subdirs \<le> 3
            \<and> (\<forall>c \<in> set class_subdirs. group_count (snd c) \<le> 5
                  \<and> (\<exists>p. ClassDataProvider_init class_data_root (fst c) = Inr p)) \<longrightarrow>
            (\<exists>ds. SubfolderModeDataset_init instance_data_root class_data_root = Inr ds))"
proof (intro conjI impI)
  assume "3 < length class_subdirs"
  then show "\<exists>msg. SubfolderModeDataset_init instance_data_root class_data_root = Inl (ValueError msg)"
    using root subs by (simp add: SubfolderModeDataset_init_def Let_def)
next
  assume "length class_subdirs = 0"
  then show "\<exists>msg. SubfolderModeDataset_init instance_data_root class_data_root = Inl (ValueError msg)"
    using root subs by (simp add: SubfolderModeDataset_init_def Let_def)
next
  assume "\<exists>c \<in> set class_subdirs. 5 < group_count (snd c)"
  from class_subdirs_loop_over_cap [OF this]
  obtain e where "class_subdirs_loop class_data_root class_subdirs (Map.empty, []) = Inl e"
    by blast
  then show "\<exists>e. SubfolderModeDataset_init instance_data_root class_data_root = Inl e"
    using root subs by (simp add: SubfolderModeDataset_init_def Let_def)
next
  assume ok: "1 \<le> length class_subdirs \<and> length class_subdirs \<le> 3
            \<and> (\<forall>c \<in> set class_subdirs. group_count (snd c) \<le> 5
                  \<and> (\<exists>p. ClassDataProvider_init class_data_root (fst c) = Inr p))"
  then have "\<forall>c \<in> set class_subdirs. is_dir (snd c) \<and> group_count (snd c) \<le> 5
             \<and> (\<exists>p. ClassDataProvider_init class_data_root (fst c) = Inr p)"
    using subs by auto
  from class_subdirs_loop_within_cap [OF this]
  obtain r where "class_subdirs_loop class_data_root class_subdirs (Map.empty, []) = Inr r"
    by blast
  then show "\<exists>ds. SubfolderModeDataset_init instance_data_root class_data_root = Inr ds"
    using root subs ok by (cases r) (auto simp add: SubfolderModeDataset_init_def Let_def)
qed


text \<open>
  The boundary: three class subfolders (and a stray file), one of them with five group
  directories, every class with an image.
\<close>

theorem subfolder_dataset_caps_witness:
  "length (filter (\<lambda>x. is_dir (snd x))
      [(''dog'', Dir [(''g1'', Dir [(''a (1).jpg'', File)]), (''g2'', Dir []), (''g3'', Dir []),
                      (''g4'', Dir []), (''g5'', Dir [])]),
       (''cat'', Dir []),
       (''notes.txt'', File),
       (''bird'', Dir [(''g'', Dir [])])]) = 3
   \<and> group_count (Dir [(''g1'', Dir [(''a (1).jpg'', File)]), (''g2'', Dir []), (''g3'', Dir []),
                        (''g4'', Dir []), (''g5'', Dir [])]) = 5
   \<and> (\<exists>ds. SubfolderModeDataset_init
          (Some (Dir
            [(''dog'', Dir [(''g1'', Dir [(''a (1).jpg'', File)]), (''g2'', Dir []), (''g3'', Dir []),
                            (''g4'', Dir []), (''g5'', Dir [])]),
             (''cat'', Dir []),
             (''notes.txt'', File),
             (''bird'', Dir [(''g'', Dir [])])]))
          [(''dog'', Dir [(''0.jpg'', File)]), (''cat'', Dir [(''0.jpg'', File)]),
           (''bird'', Dir [(''0.jpg'', File)])] = Inr ds)"
proof -
  let ?es = "[(''dog'', Dir [(''g1'', Dir [(''a (1).jpg'', File)]), (''g2'', Dir []), (''g3'', Dir []),
                      (''g4'', Dir []), (''g5'', Dir [])]),
       (''cat'', Dir []),
       (''notes.txt'', File),
       (''bird'', Dir [(''g'', Dir [])])]"
  let ?cdr = "[(''dog'', Dir [(''0.jpg'', File)]), (''cat'', Dir [(''0.jpg'', File)]),
           (''bird'', Dir [(''0.jpg'', File)])]"
  have three: "length (filter (\<lambda>x. is_dir (snd x)) ?es) = 3" by simp
  have five: "group_count (Dir [(''g1'', Dir [(''a (1).jpg'', File)]), (''g2'', Dir []), (''g3'', Dir []),
                        (''g4'', Dir []), (''g5'', Dir [])]) = 5"
    by (simp add: group_count_def)
  have pre: "1 \<le> length (filter (\<lambda>x. is_dir (snd x)) ?es)
           \<and> length (filter (\<lambda>x. is_dir (snd x)) ?es) \<le> 3
           \<and> (\<forall>c \<in> set (filter (\<lambda>x. is_dir (snd x)) ?es). group_count (snd c) \<le> 5
                  \<and> (\<exists>p. ClassDataProvider_init ?cdr (fst c) = Inr p))"
    by (simp add: group_count_def ClassDataProvider_init_def mkdir_iterdir_def)
  from subfolder_dataset_caps [OF refl refl, of ?es ?cdr] pre
  have "\<exists>ds. SubfolderModeDataset_init (Some (Dir ?es)) ?cdr = Inr ds"
    by blast
  with three five show ?thesis by blast
qed

section \<open>Collated batches\<close>

lemma lookup_all_present:
  assumes "\<forall>v \<in> set vs. v \<noteq> None"
  shows "lookup_all key vs = Inr (map the vs)"
  using assms
proof (induction vs)
  case Nil
  show ?case by simp
next
  case (Cons v vs)
  then obtain x where "v = Some x" by auto
  with Cons show ?case by simp
qed

lemma fold_max_ge:
  "(m::nat) \<le> fold max ns m \<and> (\<forall>n \<in> set ns. n \<le> fold max ns m)"
proof (induction ns arbitrary: m)
  case Nil
  show ?case by simp
next
  case (Cons n ns)
  have "max n m \<le> fold max ns (max n m)" using Cons.IH by blast
  moreover have "\<forall>k \<in> set ns. k \<le> fold max ns (max n m)" using Cons.IH by blast
  ultimately show ?case by auto
qed

lemma fold_max_attained:
  "fold max ns (m::nat) = m \<or> fold max ns m \<in> set ns"
proof (induction ns arbitrary: m)
  case Nil
  show ?case by simp
next
  case (Cons n ns)
  from Cons.IH [of "max n m"] show ?case
    by (auto simp: max_def split: if_splits)
qed

lemma pad_longest_rows:
  assumes "rows \<noteq> []"
  shows "\<exists>L. length (pad_longest pad rows) = length rows
           \<and> (\<forall>i < length rows. pad_longest pad rows ! i = rows ! i @ replicate (L - length (rows ! i)) pad
                 \<and> length (rows ! i) \<le> L
                 \<and> length (pad_longest pad rows ! i) = L)
           \<and> (\<exists>i < length rows. length (rows ! i) = L)"
proof -
  let ?L = "fold max (map length rows) 0"
  have ge: "\<forall>n \<in> set (map length rows). n \<le> ?L"
    using fold_max_ge [of 0 "map length rows"] by blast
  have len: "length (pad_longest pad rows) = length rows"
    by (simp add: pad_longest_def Let_def)
  have rows: "\<forall>i < length rows. pad_longest pad rows ! i = rows ! i @ replicate (?L - length (rows ! i)) pad
                 \<and> length (rows ! i) \<le> ?L
                 \<and> length (pad_longest pad rows ! i) = ?L"
  proof (intro allI impI)
    fix i assume i: "i < length rows"
    then have le: "length (rows ! i) \<le> ?L" using ge by simp
    from i le show "pad_longest pad rows ! i = rows ! i @ replicate (?L - length (rows ! i)) pad
                 \<and> length (rows ! i) \<le> ?L
                 \<and> length (pad_longest pad rows ! i) = ?L"
      by (simp add: pad_longest_def Let_def)
  qed
  have att: "\<exists>i < length rows. length (rows ! i) = ?L"
  proof -
    from fold_max_attained [of "map length rows" 0]
    have "?L = 0 \<or> ?L \<in> set (map length rows)" .
    then show ?thesis
    proof
      assume z: "?L = 0"
      from assms have "0 < length rows" by simp
      moreover from this ge have "length (rows ! 0) \<le> ?L" by simp
      ultimately show ?thesis using z by auto
    next
      assume "?L \<in> set (map length rows)"
      then obtain r where "r \<in> set rows" "length r = ?L" by auto
      then show ?thesis by (auto simp: in_set_conv_nth)
    qed
  qed
  from len rows att show ?thesis by blast
qed


lemma collate_fn_eq:
  assumes ne: "examples \<noteq> []"
      and shapes: "\<forall>e \<in> set examples. shape (instance_images e) = sh"
      and cls: "prior \<longrightarrow> (\<forall>e \<in> set examples. \<exists>px ids. example_class_images e = Some px
                    \<and> class_prompt_ids e = Some ids \<and> shape px = sh)"
  shows "collate_fn prior shape pad examples =
           Inr \<lparr>input_ids = pad_longest pad
                   (map instance_prompt_ids examples
                    @ (if prior then map (\<lambda>e. the (class_prompt_ids e)) examples else [])),
                pixel_values = map instance_images examples
                    @ (if prior then map (\<lambda>e. the (example_class_images e)) examples else [])\<rparr>"
proof -
  obtain e0 rest where ex: "examples = e0 # rest"
    using ne by (cases examples) auto
  show ?thesis
  proof (cases prior)
    case False
    have "list_all (\<lambda>y. shape y = shape (instance_images e0)) (map instance_images examples)"
      using shapes ex by (simp add: list_all_iff)
    then have "stack shape (map instance_images examples) = Inr (map instance_images examples)"
      using ex by (simp add: stack_def)
    with False show ?thesis by (simp add: collate_fn_def Let_def)
  next
    case True
    have a: "lookup_all ''class_prompt_ids'' (map class_prompt_ids examples)
               = Inr (map the (map class_prompt_ids examples))"
      using cls True by (intro lookup_all_present) auto
    have b: "lookup_all ''class_images'' (map example_class_images examples)
               = Inr (map the (map example_class_images examples))"
      using cls True by (intro lookup_all_present) auto
    let ?px = "map instance_images examples @ map (\<lambda>e. the (example_class_images e)) examples"
    have "\<forall>y \<in> set ?px. shape y = sh"
      using shapes cls True by auto
    moreover have "shape (instance_images e0) = sh" using shapes ex by simp
    ultimately have "list_all (\<lambda>y. shape y = shape (instance_images e0)) ?px"
      by (simp add: list_all_iff)
    then have "stack shape ?px = Inr ?px"
      using ex by (simp add: stack_def)
    with True a b show ?thesis by (simp add: collate_fn_def Let_def comp_def)
  qed
qed

text \<open>
  Claim C8. For a list of \<open>B \<ge> 1\<close> examples whose pixel tensors share one shape, \<open>collate_fn\<close>
  returns a batch. With prior preservation on (every example carrying its class fields) the
  pixel and token-id tensors have batch dimension \<open>2 * B\<close>: the \<open>B\<close> instance examples first, in
  order, then the \<open>B\<close> class examples, in order. With prior preservation off the batch
  dimension is \<open>B\<close>. Every row of token ids is the example's ids followed by pad tokens, up
  to the length \<open>L\<close> of the longest id list in the batch.
\<close>

theorem collate_fn_batch:
  assumes B: "B = length examples" "1 \<le> B"
      and shapes: "\<forall>e \<in> set examples. shape (instance_images e) = sh"
      and cls: "prior \<longrightarrow> (\<forall>e \<in> set examples. \<exists>px ids. example_class_images e = Some px
                    \<and> class_prompt_ids e = Some ids \<and> shape px = sh)"
  shows "\<exists>b L. collate_fn prior shape pad examples = Inr b
     \<and> length (pixel_values b) = (if prior then 2 * B else B)
     \<and> length (input_ids b) = (if prior then 2 * B else B)
     \<and> take B (pixel_values b) = map instance_images examples
     \<and> (prior \<longrightarrow> drop B (pixel_values b) = map (\<lambda>e. the (example_class_images e)) examples)
     \<and> (\<forall>i < B. input_ids b ! i
            = instance_prompt_ids (examples ! i)
              @ replicate (L - length (instance_prompt_ids (examples ! i))) pad)
     \<and> (prior \<longrightarrow> (\<forall>i < B. input_ids b ! (B + i)
            = the (class_prompt_ids (examples ! i))
              @ replicate (L - length (the (class_prompt_ids (examples ! i)))) pad))
     \<and> (\<forall>i < length (input_ids b). length (input_ids b ! i) = L)
     \<and> (\<exists>i < B. length (instance_prompt_ids (examples ! i)) = L
               \<or> (prior \<and> length (the (class_prompt_ids (examples ! i))) = L))"
proof -
  let ?inst = "map instance_prompt_ids examples"
  let ?cls = "map (\<lambda>e. the (class_prompt_ids e)) examples"
  let ?rows = "?inst @ (if prior then ?cls else [])"
  let ?px = "map instance_images examples
               @ (if prior then map (\<lambda>e. the (example_class_images e)) examples else [])"
  let ?b = "\<lparr>input_ids = pad_longest pad ?rows, pixel_values = ?px\<rparr>"
  have ne: "examples \<noteq> []" using B by auto
  have eq: "collate_fn prior shape pad examples = Inr ?b"
    by (rule collate_fn_eq [OF ne shapes cls])
  have rows_ne: "?rows \<noteq> []" using ne by simp
  have nrows: "length ?rows = (if prior then 2 * B else B)" using B by simp
  from pad_longest_rows [OF rows_ne, of pad] obtain L where
    len: "length (pad_longest pad ?rows) = length ?rows" and
    row: "\<And>i. i < length ?rows \<Longrightarrow>
            pad_longest pad ?rows ! i = ?rows ! i @ replicate (L - length (?rows ! i)) pad
            \<and> length (pad_longest pad ?rows ! i) = L" and
    att: "\<exists>i < length ?rows. length (?rows ! i) = L"
    by blast
  have inst_rows: "\<forall>i < B. input_ids ?b ! i
            = instance_prompt_ids (examples ! i)
              @ replicate (L - length (instance_prompt_ids (examples ! i))) pad"
  proof (intro allI impI)
    fix i assume i: "i < B"
    then have "i < length ?rows" using nrows by (simp split: if_splits)
    moreover have "?rows ! i = instance_prompt_ids (examples ! i)"
      using i B by (simp add: nth_append)
    ultimately show "input_ids ?b ! i
            = instance_prompt_ids (examples ! i)
              @ replicate (L - length (instance_prompt_ids (examples ! i))) pad"
      using row [of i] by simp
  qed
  have cls_rows: "prior \<longrightarrow> (\<forall>i < B. input_ids ?b ! (B + i)
            = the (class_prompt_ids (examples ! i))
              @ replicate (L - length (the (class_prompt_ids (examples ! i)))) pad)"
  proof (intro allI impI)
    fix i assume p: prior and i: "i < B"
    then have "B + i < length ?rows" using nrows by simp
    moreover have "?rows ! (B + i) = the (class_prompt_ids (examples ! i))"
      using i B p by (simp add: nth_append)
    ultimately show "input_ids ?b ! (B + i)
            = the (class_prompt_ids (examples ! i))
              @ replicate (L - length (the (class_prompt_ids (examples ! i)))) pad"
      using row [of "B + i"] by simp
  qed
  have sel: "input_ids ?b = pad_longest pad ?rows" by simp
  have all_len: "\<forall>i < length (input_ids ?b). length (input_ids ?b ! i) = L"
    unfolding sel len using row by blast
  have longest: "\<exists>i < B. length (instance_prompt_ids (examples ! i)) = L
               \<or> (prior \<and> length (the (class_prompt_ids (examples ! i))) = L)"
  proof -
    from att obtain j where j: "j < length ?rows" "length (?rows ! j) = L" by blast
    show ?thesis
    proof (cases "j < B")
      case True
      then have "?rows ! j = instance_prompt_ids (examples ! j)"
        using B by (simp add: nth_append)
      with j True show ?thesis by auto
    next
      case False
      then have p: prior using j nrows by (auto split: if_splits)
      have jb: "j - B < B" using j False nrows p by simp
      have "?rows ! j = the (class_prompt_ids (examples ! (j - B)))"
        using False B p jb by (simp add: nth_append)
      with j jb p show ?thesis by auto
    qed
  qed
  have px1: "length (pixel_values ?b) = (if prior then 2 * B else B)" using B by simp
  have px2: "take B (pixel_values ?b) = map instance_images examples" using B by simp
  have px3: "prior \<longrightarrow> drop B (pixel_values ?b) = map (\<lambda>e. the (example_class_images e)) examples"
    using B by simp
  have ids1: "length (input_ids ?b) = (if prior then 2 * B else B)"
    using len nrows by simp
  have "collate_fn prior shape pad examples = Inr ?b
     \<and> length (pixel_values ?b) = (if prior then 2 * B else B)
     \<and> length (input_ids ?b) = (if prior then 2 * B else B)
     \<and> take B (pixel_values ?b) = map instance_images examples
     \<and> (prior \<longrightarrow> drop B (pixel_values ?b) = map (\<lambda>e. the (example_class_images e)) examples)
     \<and> (\<forall>i < B. input_ids ?b ! i
            = instance_prompt_ids (examples ! i)
              @ replicate (L - length (instance_prompt_ids (examples ! i))) pad)
     \<and> (prior \<longrightarrow> (\<forall>i < B. input_ids ?b ! (B + i)
            = the (class_prompt_ids (examples ! i))
              @ replicate (L - length (the (class_prompt_ids (examples ! i)))) pad))
     \<and> (\<forall>i < length (input_ids ?b). length (input_ids ?b ! i) = L)
     \<and> (\<exists>i < B. length (instance_prompt_ids (examples ! i)) = L
               \<or> (prior \<and> length (the (class_prompt_ids (examples ! i))) = L))"
    using eq px1 ids1 px2 px3 inst_rows cls_rows all_len longest
    by (intro conjI) assumption+
  then show ?thesis
    by (intro exI [of _ ?b] exI [of _ L])
qed


text \<open>Two examples with class images, prompts of different lengths, prior preservation on.\<close>

theorem collate_fn_batch_witness:
  "(2::nat) = length [\<lparr>instance_images = (1::nat), instance_prompt_ids = [49406, 5, 49407],
                       example_class_images = Some 11, class_prompt_ids = Some [49406, 7, 8, 49407]\<rparr>,
                      \<lparr>instance_images = 2, instance_prompt_ids = [49406, 49407],
                       example_class_images = Some 12, class_prompt_ids = Some [49406, 9, 49407]\<rparr>]
   \<and> (\<exists>b. collate_fn True (\<lambda>t. [3, 64, 64]) 49407
             [\<lparr>instance_images = (1::nat), instance_prompt_ids = [49406, 5, 49407],
               example_class_images = Some 11, class_prompt_ids = Some [49406, 7, 8, 49407]\<rparr>,
              \<lparr>instance_images = 2, instance_prompt_ids = [49406, 49407],
               example_class_images = Some 12, class_prompt_ids = Some [49406, 9, 49407]\<rparr>] = Inr b
          \<and> length (pixel_values b) = 4
          \<and> length (input_ids b) = 4
          \<and> take 2 (pixel_values b) = [1, 2]
          \<and> drop 2 (pixel_values b) = [11, 12])"
proof -
  let ?es = "[\<lparr>instance_images = (1::nat), instance_prompt_ids = [49406, 5, 49407],
               example_class_images = Some 11, class_prompt_ids = Some [49406, 7, 8, 49407]\<rparr>,
              \<lparr>instance_images = 2, instance_prompt_ids = [49406, 49407],
               example_class_images = Some 12, class_prompt_ids = Some [49406, 9, 49407]\<rparr>]"
  let ?shape = "\<lambda>t::nat. [3, 64, 64::nat]"
  have h1: "(2::nat) = length ?es" by simp
  have h2: "1 \<le> (2::nat)" by simp
  have h3: "\<forall>e \<in> set ?es. ?shape (instance_images e) = [3, 64, 64]" by simp
  have h4: "True \<longrightarrow> (\<forall>e \<in> set ?es. \<exists>px ids. example_class_images e = Some px
                    \<and> class_prompt_ids e = Some ids \<and> ?shape px = [3, 64, 64])"
    by simp
  from collate_fn_batch [OF h1 h2 h3 h4, of 49407]
  obtain b where b: "collate_fn True ?shape 49407 ?es = Inr b"
      "length (pixel_values b) = (if True then 2 * 2 else 2)"
      "length (input_ids b) = (if True then 2 * 2 else 2)"
      "take 2 (pixel_values b) = map instance_images ?es"
      "True \<longrightarrow> drop 2 (pixel_values b) = map (\<lambda>e. the (example_class_images e)) ?es"
    by blast
  have "length (pixel_values b) = 4" "length (input_ids b) = 4"
       "take 2 (pixel_values b) = [1, 2]" "drop 2 (pixel_values b) = [11, 12]"
    using b(2-5) by simp_all
  with h1 b(1) show ?thesis by blast
qed

section \<open>Loading the session sidecar\<close>




section \<open>Loss of a training step\<close>













section \<open>Periodic export on a process that is not the main one\<close>


end
